theory Spec2Isabelle
  imports Complex_Main
begin

section \<open>Monte Carlo convergence of a Gaussian Value-at-Risk estimate\<close>

text \<open>
  The repository holds two variants of one script, \<^verbatim>\<open>monte_carlo_var.py\<close>: the
  single-run variant (directory \<^verbatim>\<open>monte_carlo_var_analysis\<close>) and the variant that
  averages over trials (directory \<^verbatim>\<open>monte-carlo-analysis\<close>). Both call NumPy and
  SciPy for every numerical step, so the embedding has two layers: the library
  routines, written from their documented behaviour, and the functions of the
  script, written line by line from the source.

  Numbers: a Python float is modelled as a value of \<open>fval\<close>: a finite float is a
  real number, and the three special values of IEEE arithmetic are constructors,
  because the script can produce them and the specification speaks about them. The
  parameters \<open>mu\<close>, \<open>sigma\<close> and \<open>confidence_level\<close> are finite floats, hence reals;
  the negative zero has no counterpart. The one operation of the script whose rounding
  decides what the caller sees, the subtraction \<^verbatim>\<open>1 - confidence_level\<close> of
  \<^verbatim>\<open>calculate_analytical_var\<close>, is rounded to binary64. Inside the library routines
  and along the sampling and percentile path a finite float is an exact real; rounding
  and overflow there are outside the model. The properties below that concern this
  path are about which values are computed from which draws, which exceptions are
  raised and which special values come out, not about the last bits of a result.
\<close>

subsection \<open>Float values\<close>

datatype fval = Fin real | PInf | NInf | NaN

fun fneg :: "fval \<Rightarrow> fval" where
  "fneg (Fin r) = Fin (- r)"
| "fneg PInf = NInf"
| "fneg NInf = PInf"
| "fneg NaN = NaN"

fun fadd :: "fval \<Rightarrow> fval \<Rightarrow> fval" where
  "fadd NaN _ = NaN"
| "fadd _ NaN = NaN"
| "fadd (Fin a) (Fin b) = Fin (a + b)"
| "fadd (Fin a) PInf = PInf"
| "fadd (Fin a) NInf = NInf"
| "fadd PInf (Fin b) = PInf"
| "fadd NInf (Fin b) = NInf"
| "fadd PInf PInf = PInf"
| "fadd NInf NInf = NInf"
| "fadd PInf NInf = NaN"
| "fadd NInf PInf = NaN"

definition fsub :: "fval \<Rightarrow> fval \<Rightarrow> fval" where
  "fsub a b = fadd a (fneg b)"

fun fabs :: "fval \<Rightarrow> fval" where
  "fabs (Fin r) = Fin \<bar>r\<bar>"
| "fabs PInf = PInf"
| "fabs NInf = PInf"
| "fabs NaN = NaN"

text \<open>Division of a float by a count \<open>k\<close>; \<open>0.0 / 0\<close> and \<open>inf / 0\<close> do not
  arise, the only caller being \<open>np_mean\<close> on a non-empty list.\<close>

fun fdiv_count :: "fval \<Rightarrow> nat \<Rightarrow> fval" where
  "fdiv_count (Fin r) k = Fin (r / real k)"
| "fdiv_count PInf k = PInf"
| "fdiv_count NInf k = NInf"
| "fdiv_count NaN k = NaN"

text \<open>The comparison \<open>v >= 0\<close> of floats: false for NaN.\<close>

fun fge0 :: "fval \<Rightarrow> bool" where
  "fge0 (Fin r) = (0 \<le> r)"
| "fge0 PInf = True"
| "fge0 NInf = False"
| "fge0 NaN = False"

fun is_finite :: "fval \<Rightarrow> bool" where
  "is_finite (Fin r) = True"
| "is_finite _ = False"

fun fin_val :: "fval \<Rightarrow> real" where
  "fin_val (Fin r) = r"
| "fin_val _ = 0"


subsection \<open>Rounding to binary64\<close>

text \<open>
  The result of an arithmetic operation of binary64 is the exact result rounded to the
  nearest number with a significand of 53 bits, a tie going to the even significand.
  For \<open>x\<close> with \<open>2^e \<le> |x| < 2^(e+1)\<close> the spacing of these numbers is
  \<open>2^(e-52)\<close>. The exponent range is left out: the difference \<open>1 - c\<close> of a finite
  float \<open>c\<close> neither overflows nor is it subnormal.
\<close>

definition round_half_even :: "real \<Rightarrow> int" where
  "round_half_even y =
     (let f = \<lfloor>y\<rfloor>; r = y - of_int f
      in if r < 1 / 2 then f else if 1 / 2 < r then f + 1 else if even f then f else f + 1)"

definition fl64 :: "real \<Rightarrow> real" where
  "fl64 x =
     (if x = 0 then 0
      else let ulp = 2 powr (of_int \<lfloor>log 2 \<bar>x\<bar>\<rfloor> - 52)
           in of_int (round_half_even (x / ulp)) * ulp)"

subsection \<open>Errors\<close>

text \<open>
  The exceptions the libraries raise on the paths of the script, and the four errors of
  the specification's taxonomy. No statement of the script raises: the last four
  constructors never occur on the right-hand side of a definition below.
\<close>

datatype error =
    ValueError | IndexError | TypeError | LinAlgError
  | InvalidParameter | InvalidSampleSize | InvalidInput | InsufficientData

subsection \<open>Library routines\<close>

text \<open>
  The standard normal law has a density proportional to \<open>exp (- x\<^sup>2 / 2)\<close>. The area
  under this curve between \<open>0\<close> and \<open>x\<close> is the power series
  \<open>\<Sum>n. (-1)^n x^(2n+1) / (2^n n! (2n+1))\<close>; the area over the half line is its
  supremum (its value is \<open>sqrt (pi / 2)\<close>, which nothing below needs). The
  distribution function is the area to the left of \<open>x\<close> over the whole area, and the
  standard normal quantile \<open>ndtri\<close> is its inverse. SciPy computes \<open>ndtri\<close> by
  rational approximation in binary64.
\<close>

definition gauss_area :: "real \<Rightarrow> real" where
  "gauss_area x = (\<Sum>n. (- 1) ^ n * x ^ (2 * n + 1) / (2 ^ n * fact n * real (2 * n + 1)))"

definition gauss_half_mass :: real where
  "gauss_half_mass = Sup (range gauss_area)"

definition std_normal_cdf :: "real \<Rightarrow> real" where
  "std_normal_cdf x = 1 / 2 + gauss_area x / (2 * gauss_half_mass)"

text \<open>The coefficients of the series \<open>\<Sum>k. u^k / (k! (2k+1))\<close>, used to differentiate it.\<close>

definition gauss_coeff :: "nat \<Rightarrow> real" where
  "gauss_coeff k = inverse (fact k * real (2 * k + 1))"

definition ndtri :: "real \<Rightarrow> real" where
  "ndtri q = (THE x. std_normal_cdf x = q)"

text \<open>
  \<^verbatim>\<open>scipy.stats.norm.ppf(q, loc, scale)\<close>. The generic \<^verbatim>\<open>ppf\<close> of a continuous
  distribution raises nothing: where the scale is not positive, or \<open>q\<close> lies outside
  \<open>[0, 1]\<close>, the result is NaN; at \<open>q = 0\<close> and \<open>q = 1\<close> it is the lower and upper end
  of the support, here minus and plus infinity; otherwise \<open>loc + scale * ndtri q\<close>.
\<close>

definition norm_ppf :: "real \<Rightarrow> real \<Rightarrow> real \<Rightarrow> fval" where
  "norm_ppf q loc scale =
     (if \<not> 0 < scale then NaN
      else if 0 < q \<and> q < 1 then Fin (ndtri q * scale + loc)
      else if q = 0 then NInf
      else if q = 1 then PInf
      else NaN)"

text \<open>
  The global generator of \<^verbatim>\<open>np.random\<close>, as explicit state: the stream of standard
  normal variates it will deliver and the number already consumed.
\<close>

record rng =
  variates :: "nat \<Rightarrow> real"
  consumed :: nat

text \<open>
  The sample of \<open>n\<close> values that a generator at position \<open>p\<close> delivers, each the exact
  \<open>loc + scale * z\<close>.
\<close>

definition sample_at :: "rng \<Rightarrow> nat \<Rightarrow> real \<Rightarrow> real \<Rightarrow> nat \<Rightarrow> real list" where
  "sample_at g p loc scale n = map (\<lambda>i. loc + scale * variates g (p + i)) [0..<n]"

text \<open>
  \<^verbatim>\<open>np.random.normal(loc, scale, size)\<close>: ValueError for a negative scale, for a
  negative size and for a size of \<open>2^63\<close> or more (no array has that many elements);
  otherwise \<open>size\<close> values \<open>loc + scale * z\<close>, and the generator advances. A size
  below \<open>2^63\<close> that exhausts the memory of the machine is not modelled.
\<close>

definition np_random_normal :: "rng \<Rightarrow> real \<Rightarrow> real \<Rightarrow> int \<Rightarrow> error + (real list \<times> rng)" where
  "np_random_normal g loc scale n =
     (if scale < 0 then Inl ValueError
      else if n < 0 then Inl ValueError
      else if 2 ^ 63 \<le> n then Inl ValueError
      else Inr (sample_at g (consumed g) loc scale (nat n),
                g\<lparr>consumed := consumed g + nat n\<rparr>))"

text \<open>
  \<^verbatim>\<open>np.percentile(a, q)\<close> with the default method. NumPy sorts the data, takes the
  virtual index \<open>(n - 1) * q / 100\<close>, the order statistic at its floor and the next one
  (both clamped to the last index when the virtual index reaches it), and interpolates
  with \<^verbatim>\<open>_lerp\<close>, which computes from the upper end when the weight is at least one
  half. The interpolation is carried out on reals: the overflow of \<open>b - a\<close>, which in
  binary64 makes the result infinite or NaN, is outside the model, and no property
  below bounds a percentile.
\<close>

definition lerp :: "real \<Rightarrow> real \<Rightarrow> real \<Rightarrow> real" where
  "lerp a b t = (if 1 / 2 \<le> t then b - (b - a) * (1 - t) else a + (b - a) * t)"

definition linear_quantile :: "real list \<Rightarrow> real \<Rightarrow> real" where
  "linear_quantile xs q =
     (let arr = sort xs;
          values_count = length xs;
          virtual_index = real (values_count - 1) * (q / 100);
          previous_index = nat \<lfloor>virtual_index\<rfloor>
      in if real (values_count - 1) \<le> virtual_index then arr ! (values_count - 1)
         else lerp (arr ! previous_index) (arr ! (previous_index + 1))
                (virtual_index - real previous_index))"

text \<open>
  ValueError when \<open>q\<close> is outside \<open>[0, 100]\<close> (checked before the data is looked at);
  IndexError on an empty array (NumPy 1.22 and later).
\<close>

definition np_percentile :: "real list \<Rightarrow> real \<Rightarrow> error + real" where
  "np_percentile a q =
     (if q < 0 \<or> 100 < q then Inl ValueError
      else if a = [] then Inl IndexError
      else Inr (linear_quantile a q))"

text \<open>\<^verbatim>\<open>np.mean\<close> of a list of floats: the sum over the count, NaN on an empty list.\<close>

definition np_mean :: "fval list \<Rightarrow> fval" where
  "np_mean xs = (if xs = [] then NaN else fdiv_count (foldl fadd (Fin 0) xs) (length xs))"

text \<open>
  \<^verbatim>\<open>np.log\<close>: minus infinity at zero and NaN below it, with a warning and no
  exception. The logarithm of a positive number is the exact one; the properties below
  use only whether the result is finite.
\<close>

fun np_log :: "fval \<Rightarrow> fval" where
  "np_log (Fin r) = (if 0 < r then Fin (ln r) else if r = 0 then NInf else NaN)"
| "np_log PInf = PInf"
| "np_log NInf = NaN"
| "np_log NaN = NaN"

text \<open>
  \<^verbatim>\<open>np.polyfit(x, y, 1)\<close>: the coefficients, highest power first, of the least-squares
  line. TypeError for an empty \<open>x\<close> and for vectors of different length. The routine
  divides each column of the design matrix by its norm and hands the result to the
  singular value decomposition, which fails with LinAlgError on a matrix with a
  non-finite entry, whatever the ordinates are: an abscissa that is not finite gives
  such a matrix, and so does a column of zeros (\<open>0 / 0\<close>), which is the case when every
  abscissa is zero. Otherwise NaN or an infinity among the ordinates raises nothing and
  makes both coefficients NaN. For finite data with at least two different abscissae the
  solution is unique and is the one of the normal equations; when all abscissae are
  equal the routine returns the solution of least norm of the column-scaled system
  (with a RankWarning).
\<close>

definition np_polyfit1 :: "fval list \<Rightarrow> fval list \<Rightarrow> error + (fval \<times> fval)" where
  "np_polyfit1 x y =
     (if x = [] then Inl TypeError
      else if length x \<noteq> length y then Inl TypeError
      else if \<not> list_all is_finite x then Inl LinAlgError
      else if list_all (\<lambda>a. a = Fin 0) x then Inl LinAlgError
      else if \<not> list_all is_finite y then Inr (NaN, NaN)
      else
        let xs = map fin_val x;
            ys = map fin_val y;
            k = real (length xs);
            sx = sum_list xs;
            sy = sum_list ys;
            sxx = sum_list (map (\<lambda>a. a * a) xs);
            sxy = sum_list (map2 (\<lambda>a b. a * b) xs ys);
            d = k * sxx - sx * sx
        in if d = 0 then Inr (Fin (sy / (2 * sx)), Fin (sy / (2 * k)))
           else
             let slope = (k * sxy - sx * sy) / d
             in Inr (Fin slope, Fin ((sy - slope * sx) / k)))"

subsection \<open>The script\<close>

text \<open>
  \<^verbatim>\<open>calculate_analytical_var(mu, sigma, confidence_level)\<close>, the same in both files:
  \<^verbatim>\<open>return stats.norm.ppf(1 - confidence_level, loc=mu, scale=sigma)\<close>. The
  subtraction is the one of binary64.
\<close>

definition calculate_analytical_var :: "real \<Rightarrow> real \<Rightarrow> real \<Rightarrow> fval" where
  "calculate_analytical_var mu sigma confidence_level =
     norm_ppf (fl64 (1 - confidence_level)) mu sigma"

text \<open>
  \<^verbatim>\<open>monte_carlo_var_simulation(mu, sigma, confidence_level, sample_sizes)\<close> of the
  single-run variant. The loop \<^verbatim>\<open>for n in sample_sizes\<close> draws, takes the percentile
  \<^verbatim>\<open>(1 - confidence_level) * 100\<close>, and appends the estimate and
  \<^verbatim>\<open>abs(estimated_var - analytical_var)\<close> to the two result lists. The generator is
  threaded through; an exception of a library call ends the run. The \<^verbatim>\<open>print\<close> of the
  analytical value does not touch the results and is left out.
\<close>

fun simulation_loop ::
  "real \<Rightarrow> real \<Rightarrow> real \<Rightarrow> fval \<Rightarrow> int list \<Rightarrow> rng \<Rightarrow> fval list \<Rightarrow> fval list
    \<Rightarrow> error + (fval list \<times> fval list \<times> rng)" where
  "simulation_loop mu sigma confidence_level analytical_var [] g estimated_vars errors =
     Inr (estimated_vars, errors, g)"
| "simulation_loop mu sigma confidence_level analytical_var (n # ns) g estimated_vars errors =
     (case np_random_normal g mu sigma n of
        Inl e \<Rightarrow> Inl e
      | Inr (returns, g') \<Rightarrow>
          (case np_percentile returns ((1 - confidence_level) * 100) of
             Inl e \<Rightarrow> Inl e
           | Inr estimated_var \<Rightarrow>
               simulation_loop mu sigma confidence_level analytical_var ns g'
                 (estimated_vars @ [Fin estimated_var])
                 (errors @ [fabs (fsub (Fin estimated_var) analytical_var)])))"

definition monte_carlo_var_simulation ::
  "rng \<Rightarrow> real \<Rightarrow> real \<Rightarrow> real \<Rightarrow> int list \<Rightarrow> error + (fval \<times> fval list \<times> fval list \<times> rng)" where
  "monte_carlo_var_simulation g mu sigma confidence_level sample_sizes =
     (let analytical_var = calculate_analytical_var mu sigma confidence_level
      in case simulation_loop mu sigma confidence_level analytical_var sample_sizes g [] [] of
           Inl e \<Rightarrow> Inl e
         | Inr (estimated_vars, errors, g') \<Rightarrow> Inr (analytical_var, estimated_vars, errors, g'))"

text \<open>
  \<^verbatim>\<open>monte_carlo_var_simulation(mu, sigma, confidence_level, sample_sizes, num_trials)\<close>
  of the averaging variant. The inner loop \<^verbatim>\<open>for _ in range(num_trials)\<close> collects the
  estimates and the absolute errors of one sample size; the outer loop appends their
  \<^verbatim>\<open>np.mean\<close>. \<^verbatim>\<open>range\<close> of a number below one is empty.
\<close>

fun trials_loop ::
  "real \<Rightarrow> real \<Rightarrow> real \<Rightarrow> fval \<Rightarrow> int \<Rightarrow> nat \<Rightarrow> rng \<Rightarrow> fval list \<Rightarrow> fval list
    \<Rightarrow> error + (fval list \<times> fval list \<times> rng)" where
  "trials_loop mu sigma confidence_level analytical_var n 0 g current_n_vars current_n_errors =
     Inr (current_n_vars, current_n_errors, g)"
| "trials_loop mu sigma confidence_level analytical_var n (Suc k) g current_n_vars current_n_errors =
     (case np_random_normal g mu sigma n of
        Inl e \<Rightarrow> Inl e
      | Inr (returns, g') \<Rightarrow>
          (case np_percentile returns ((1 - confidence_level) * 100) of
             Inl e \<Rightarrow> Inl e
           | Inr estimated_var \<Rightarrow>
               trials_loop mu sigma confidence_level analytical_var n k g'
                 (current_n_vars @ [Fin estimated_var])
                 (current_n_errors @ [fabs (fsub (Fin estimated_var) analytical_var)])))"

fun averaging_loop ::
  "real \<Rightarrow> real \<Rightarrow> real \<Rightarrow> fval \<Rightarrow> int \<Rightarrow> int list \<Rightarrow> rng \<Rightarrow> fval list \<Rightarrow> fval list
    \<Rightarrow> error + (fval list \<times> fval list \<times> rng)" where
  "averaging_loop mu sigma confidence_level analytical_var num_trials [] g
     estimated_vars_means avg_errors = Inr (estimated_vars_means, avg_errors, g)"
| "averaging_loop mu sigma confidence_level analytical_var num_trials (n # ns) g
     estimated_vars_means avg_errors =
     (case trials_loop mu sigma confidence_level analytical_var n (nat num_trials) g [] [] of
        Inl e \<Rightarrow> Inl e
      | Inr (current_n_vars, current_n_errors, g') \<Rightarrow>
          averaging_loop mu sigma confidence_level analytical_var num_trials ns g'
            (estimated_vars_means @ [np_mean current_n_vars])
            (avg_errors @ [np_mean current_n_errors]))"

definition monte_carlo_var_simulation_trials ::
  "rng \<Rightarrow> real \<Rightarrow> real \<Rightarrow> real \<Rightarrow> int list \<Rightarrow> int
    \<Rightarrow> error + (fval \<times> fval list \<times> fval list \<times> rng)" where
  "monte_carlo_var_simulation_trials g mu sigma confidence_level sample_sizes num_trials =
     (let analytical_var = calculate_analytical_var mu sigma confidence_level
      in case averaging_loop mu sigma confidence_level analytical_var num_trials sample_sizes g [] [] of
           Inl e \<Rightarrow> Inl e
         | Inr (estimated_vars_means, avg_errors, g') \<Rightarrow>
             Inr (analytical_var, estimated_vars_means, avg_errors, g'))"

text \<open>
  The power-law fit of \<^verbatim>\<open>main\<close>, the same three lines in both files:
  \<^verbatim>\<open>log_N = np.log(sample_sizes)\<close>, \<^verbatim>\<open>log_Err = np.log(errors)\<close>,
  \<^verbatim>\<open>slope, intercept = np.polyfit(log_N, log_Err, 1)\<close>, as a function of the two
  sequences that reach them. The sample sizes are the entries of the array of 64-bit
  integers that \<^verbatim>\<open>main\<close> builds, so only integers below \<open>2^63\<close> are meaningful
  arguments; the statements about the fit are restricted to them.
\<close>

definition log_log_fit :: "int list \<Rightarrow> fval list \<Rightarrow> error + (fval \<times> fval)" where
  "log_log_fit sample_sizes errors =
     (let log_N = map (\<lambda>n. np_log (Fin (real_of_int n))) sample_sizes;
          log_Err = map np_log errors
      in np_polyfit1 log_N log_Err)"

subsection \<open>The specification's vocabulary\<close>



text \<open>
  The position of the generator when the script reaches the \<open>i\<close>-th sample size, each
  size being drawn \<open>t\<close> times, and the \<open>t\<close> estimates taken for a sample size \<open>n\<close> from
  position \<open>p\<close> on.
\<close>

definition draw_offset :: "int list \<Rightarrow> nat \<Rightarrow> nat \<Rightarrow> nat" where
  "draw_offset sample_sizes t i = t * sum_list (map nat (take i sample_sizes))"

definition trial_estimates :: "rng \<Rightarrow> nat \<Rightarrow> real \<Rightarrow> real \<Rightarrow> real \<Rightarrow> nat \<Rightarrow> nat \<Rightarrow> real list" where
  "trial_estimates g p mu sigma confidence_level n t =
     map (\<lambda>j. linear_quantile (sample_at g (p + j * n) mu sigma n) ((1 - confidence_level) * 100))
       [0..<t]"

text \<open>
  A concrete generator for evaluating the script: its variates are \<open>i * (i - 4)\<close>,
  that is \<open>0, -3, -4, -3, 0, 5, 12, 21, 32, 45, \<dots>\<close>.
\<close>

definition parabola_rng :: rng where
  "parabola_rng = \<lparr>variates = (\<lambda>i. real i * (real i - 4)), consumed = 0\<rparr>"


section \<open>Properties\<close>

subsection \<open>The standard normal quantile\<close>

text \<open>
  The area function has derivative \<open>exp (- x\<^sup>2 / 2)\<close>, so it is strictly increasing;
  it is bounded, since \<open>exp (- x\<^sup>2 / 2) \<le> 1 / (1 + x\<^sup>2 / 2)\<close>. Hence the distribution
  function is a strictly increasing continuous map of the line onto the open unit
  interval, and \<open>ndtri\<close> is its inverse there.
\<close>

lemma summable_gauss_coeff: "summable (\<lambda>k. gauss_coeff k * y ^ k)"
proof (rule summable_comparison_test')
  show "summable (\<lambda>k. inverse (fact k) * \<bar>y\<bar> ^ k)" by (rule summable_exp)
  fix k :: nat
  have "(1 :: real) \<le> real (2 * k + 1)" by simp
  then have "fact k * 1 \<le> fact k * real (2 * k + 1)"
    by (intro mult_left_mono) simp_all
  then have "gauss_coeff k \<le> inverse (fact k)"
    unfolding gauss_coeff_def by (intro le_imp_inverse_le) simp_all
  moreover have "0 \<le> gauss_coeff k" by (simp add: gauss_coeff_def)
  ultimately show "norm (gauss_coeff k * y ^ k) \<le> inverse (fact k) * \<bar>y\<bar> ^ k"
    by (simp add: abs_mult power_abs mult_right_mono)
qed

lemma gauss_series_derivative:
  "DERIV (\<lambda>u. \<Sum>k. gauss_coeff k * u ^ k) u :> (\<Sum>k. diffs gauss_coeff k * u ^ k)"
  by (rule termdiffs_strong_converges_everywhere) (rule summable_gauss_coeff)

lemma gauss_series_exp:
  "(\<Sum>k. gauss_coeff k * u ^ k) + 2 * u * (\<Sum>k. diffs gauss_coeff k * u ^ k) = exp u"
proof -
  have sd: "summable (\<lambda>k. diffs gauss_coeff k * u ^ k)"
    by (rule termdiff_converges_all) (rule summable_gauss_coeff)
  from diffs_equiv [OF sd]
  have "(\<lambda>k. 2 * u * (real k * gauss_coeff k * u ^ (k - Suc 0))) sums
          (2 * u * (\<Sum>k. diffs gauss_coeff k * u ^ k))"
    by (rule sums_mult)
  moreover have "(\<lambda>k. gauss_coeff k * u ^ k) sums (\<Sum>k. gauss_coeff k * u ^ k)"
    by (rule summable_sums) (rule summable_gauss_coeff)
  ultimately have "(\<lambda>k. gauss_coeff k * u ^ k + 2 * u * (real k * gauss_coeff k * u ^ (k - Suc 0))) sums
      ((\<Sum>k. gauss_coeff k * u ^ k) + 2 * u * (\<Sum>k. diffs gauss_coeff k * u ^ k))"
    by (intro sums_add)
  moreover have "gauss_coeff k * u ^ k + 2 * u * (real k * gauss_coeff k * u ^ (k - Suc 0)) =
      u ^ k /\<^sub>R fact k" for k
  proof (cases k)
    case 0
    then show ?thesis by (simp add: gauss_coeff_def)
  next
    case (Suc j)
    have p: "(0 :: real) < fact k + fact k * (real k * 2)"
      by (intro add_pos_nonneg) simp_all
    have "gauss_coeff k * (1 + 2 * real k) = inverse (fact k)"
      unfolding gauss_coeff_def using p by (simp add: field_simps)
    then have "inverse (fact k) * u ^ k = gauss_coeff k * (1 + 2 * real k) * u ^ k"
      by simp
    also have "\<dots> = gauss_coeff k * u ^ k + 2 * u * (real k * gauss_coeff k * u ^ (k - Suc 0))"
      using Suc by (simp add: algebra_simps)
    finally show ?thesis by (simp add: scaleR_conv_of_real)
  qed
  ultimately have "(\<lambda>k. u ^ k /\<^sub>R fact k) sums
      ((\<Sum>k. gauss_coeff k * u ^ k) + 2 * u * (\<Sum>k. diffs gauss_coeff k * u ^ k))"
    by simp
  then show ?thesis
    using exp_converges [of u] by (rule sums_unique2)
qed

lemma gauss_area_alt:
  "gauss_area x = x * (\<Sum>k. gauss_coeff k * (- (x * x) / 2) ^ k)"
proof -
  have "(- 1) ^ n * x ^ (2 * n + 1) / (2 ^ n * fact n * real (2 * n + 1)) =
      x * (gauss_coeff n * (- (x * x) / 2) ^ n)" for n
  proof -
    have "(- (x * x) / 2) ^ n = (- ((x * x) / 2)) ^ n" by simp
    also have "\<dots> = (- 1) ^ n * ((x * x) / 2) ^ n" by (rule power_minus)
    also have "\<dots> = (- 1) ^ n * ((x * x) ^ n / 2 ^ n)" by (simp only: power_divide)
    also have "(x * x) ^ n = x ^ (2 * n)" by (simp add: power_mult power2_eq_square)
    finally have "(- (x * x) / 2) ^ n = (- 1) ^ n * (x ^ (2 * n) / 2 ^ n)" .
    then show ?thesis
      by (simp add: gauss_coeff_def divide_simps)
  qed
  then have "(\<Sum>n. (- 1) ^ n * x ^ (2 * n + 1) / (2 ^ n * fact n * real (2 * n + 1))) =
      (\<Sum>n. x * (gauss_coeff n * (- (x * x) / 2) ^ n))"
    by simp
  also have "\<dots> = x * (\<Sum>n. gauss_coeff n * (- (x * x) / 2) ^ n)"
    by (rule suminf_mult) (rule summable_gauss_coeff)
  finally show ?thesis
    by (simp add: gauss_area_def)
qed

lemma gauss_area_derivative: "DERIV gauss_area x :> exp (- (x * x) / 2)"
proof -
  define D where "D = (\<Sum>k. diffs gauss_coeff k * (- (x * x) / 2) ^ k)"
  define S where "S = (\<Sum>k. gauss_coeff k * (- (x * x) / 2) ^ k)"
  have inner: "DERIV (\<lambda>x. - (x * x) / 2) x :> - x"
    by (auto intro!: derivative_eq_intros)
  have "DERIV (\<lambda>x. \<Sum>k. gauss_coeff k * (- (x * x) / 2) ^ k) x :> D * (- x)"
    unfolding D_def by (rule DERIV_chain' [OF inner gauss_series_derivative])
  then have "DERIV (\<lambda>x. x * (\<Sum>k. gauss_coeff k * (- (x * x) / 2) ^ k)) x :> 1 * S + (D * (- x)) * x"
    unfolding S_def by (intro DERIV_mult DERIV_ident)
  moreover have "1 * S + (D * (- x)) * x = exp (- (x * x) / 2)"
    using gauss_series_exp [of "- (x * x) / 2"] by (simp add: S_def D_def algebra_simps)
  ultimately have "DERIV (\<lambda>x. x * (\<Sum>k. gauss_coeff k * (- (x * x) / 2) ^ k)) x :> exp (- (x * x) / 2)"
    by simp
  then show ?thesis
    by (simp add: gauss_area_alt [abs_def])
qed

lemma gauss_area_0: "gauss_area 0 = 0"
  by (simp add: gauss_area_alt)

lemma gauss_area_minus: "gauss_area (- x) = - gauss_area x"
  by (simp add: gauss_area_alt)

lemma gauss_area_strict_mono:
  assumes "a < b"
  shows "gauss_area a < gauss_area b"
  using assms
proof (rule DERIV_pos_imp_increasing)
  fix x :: real
  have "0 < exp (- (x * x) / 2)" by simp
  with gauss_area_derivative [of x]
  show "\<exists>y. DERIV gauss_area x :> y \<and> 0 < y" by blast
qed

lemma gauss_area_le_arctan:
  assumes "0 \<le> x"
  shows "gauss_area x \<le> sqrt 2 * arctan (x / sqrt 2)"
proof -
  define h where "h = (\<lambda>t. sqrt 2 * arctan (t / sqrt 2) - gauss_area t)"
  have "h 0 \<le> h x"
  proof (rule DERIV_nonneg_imp_nondecreasing [OF assms])
    fix t :: real
    have d0: "DERIV (\<lambda>t. sqrt 2 * arctan (t / sqrt 2)) t :> sqrt 2 * (inverse (1 + (t / sqrt 2)\<^sup>2) * (1 / sqrt 2))"
      by (intro DERIV_cmult DERIV_chain2 [OF DERIV_arctan] DERIV_cdivide DERIV_ident)
    have sq: "(t / sqrt 2)\<^sup>2 = t * t / 2"
      by (simp add: power_divide power2_eq_square)
    have e: "sqrt 2 * (inverse (1 + (t / sqrt 2)\<^sup>2) * (1 / sqrt 2)) = inverse (1 + t * t / 2)"
      unfolding sq by simp
    from d0 have "DERIV (\<lambda>t. sqrt 2 * arctan (t / sqrt 2)) t :> inverse (1 + t * t / 2)"
      unfolding e .
    then have d: "DERIV h t :> inverse (1 + t * t / 2) - exp (- (t * t) / 2)"
      unfolding h_def by (intro DERIV_diff gauss_area_derivative)
    have "1 + t * t / 2 \<le> exp (t * t / 2)" by (rule exp_ge_add_one_self)
    moreover have "0 < 1 + t * t / 2" by (simp add: add_pos_nonneg)
    ultimately have "inverse (exp (t * t / 2)) \<le> inverse (1 + t * t / 2)"
      by (intro le_imp_inverse_le)
    then have "exp (- (t * t) / 2) \<le> inverse (1 + t * t / 2)"
      by (simp add: exp_minus)
    with d show "\<exists>y. DERIV h t :> y \<and> 0 \<le> y"
      by (intro exI [of _ "inverse (1 + t * t / 2) - exp (- (t * t) / 2)"]) simp
  qed
  then show ?thesis by (simp add: h_def gauss_area_0)
qed

lemma gauss_area_bounded: "gauss_area x \<le> sqrt 2 * (pi / 2)"
proof (cases "0 \<le> x")
  case True
  have "arctan (x / sqrt 2) \<le> pi / 2" using arctan_ubound [of "x / sqrt 2"] by simp
  then have "sqrt 2 * arctan (x / sqrt 2) \<le> sqrt 2 * (pi / 2)"
    by (intro mult_left_mono) simp_all
  with gauss_area_le_arctan [OF True] show ?thesis by linarith
next
  case False
  then have "gauss_area x < gauss_area 0" by (intro gauss_area_strict_mono) simp
  then have "gauss_area x < 0" by (simp only: gauss_area_0)
  moreover have "0 \<le> sqrt 2 * (pi / 2)" by simp
  ultimately show ?thesis by linarith
qed

lemma bdd_above_gauss_area: "bdd_above (range gauss_area)"
  by (rule bdd_aboveI [of _ "sqrt 2 * (pi / 2)"]) (use gauss_area_bounded in blast)

lemma gauss_area_less_half_mass: "gauss_area x < gauss_half_mass"
proof -
  have "gauss_area x < gauss_area (x + 1)" by (rule gauss_area_strict_mono) simp
  also have "gauss_area (x + 1) \<le> gauss_half_mass"
    unfolding gauss_half_mass_def by (rule cSup_upper [OF _ bdd_above_gauss_area]) simp
  finally show ?thesis .
qed

lemma gauss_half_mass_pos: "0 < gauss_half_mass"
  using gauss_area_less_half_mass [of 0] by (simp add: gauss_area_0)







lemma std_normal_cdf_range: "0 < std_normal_cdf x" "std_normal_cdf x < 1"
proof -
  note p = gauss_half_mass_pos
  from gauss_area_less_half_mass [of x] p have "gauss_area x / (2 * gauss_half_mass) < 1 / 2"
    by (simp add: field_simps)
  then show "std_normal_cdf x < 1" by (simp add: std_normal_cdf_def)
  from gauss_area_less_half_mass [of "- x"] have "- gauss_half_mass < gauss_area x"
    by (simp add: gauss_area_minus)
  with p have "- (1 / 2) < gauss_area x / (2 * gauss_half_mass)"
    by (simp add: field_simps)
  then show "0 < std_normal_cdf x" by (simp add: std_normal_cdf_def)
qed








subsection \<open>Properties of the rounding\<close>

lemma round_half_even_of_int: "round_half_even (of_int m) = m"
  by (simp add: round_half_even_def)

lemma round_half_even_bounds: "\<lfloor>y\<rfloor> \<le> round_half_even y \<and> round_half_even y \<le> \<lfloor>y\<rfloor> + 1"
  by (simp add: round_half_even_def Let_def)

lemma round_half_even_mono:
  assumes "a \<le> b"
  shows "round_half_even a \<le> round_half_even b"
proof (cases "\<lfloor>a\<rfloor> = \<lfloor>b\<rfloor>")
  case True
  with assms show ?thesis
    by (simp add: round_half_even_def Let_def)
next
  case False
  with assms have "\<lfloor>a\<rfloor> + 1 \<le> \<lfloor>b\<rfloor>"
    using floor_mono [of a b] by linarith
  with round_half_even_bounds [of a] round_half_even_bounds [of b] show ?thesis
    by linarith
qed

lemma floor_log2:
  assumes "0 < x" and "2 powr of_int e \<le> x" and "x < 2 powr (of_int e + 1)"
  shows "\<lfloor>log 2 x\<rfloor> = e"
proof (rule floor_unique)
  show "of_int e \<le> log 2 x"
    using assms(1,2) by (simp add: le_log_iff)
  show "log 2 x < of_int e + 1"
    using assms(1,3) by (simp add: log_less_iff)
qed

text \<open>A number with a significand of 53 bits is not changed.\<close>

lemma fl64_exact:
  assumes "x \<noteq> 0" and "2 powr of_int e \<le> \<bar>x\<bar>" and "\<bar>x\<bar> < 2 powr (of_int e + 1)"
    and "x / 2 powr (of_int e - 52) = of_int m"
  shows "fl64 x = x"
proof -
  have e: "\<lfloor>log 2 \<bar>x\<bar>\<rfloor> = e"
    using assms(1-3) by (intro floor_log2) simp_all
  have "fl64 x = of_int (round_half_even (of_int m)) * 2 powr (of_int e - 52)"
    using assms(1) by (simp add: fl64_def e assms(4))
  also have "\<dots> = x / 2 powr (of_int e - 52) * 2 powr (of_int e - 52)"
    by (simp only: round_half_even_of_int assms(4))
  also have "\<dots> = x"
    by simp
  finally show ?thesis .
qed

lemma fl64_0: "fl64 0 = 0"
  by (simp add: fl64_def)

lemma fl64_1: "fl64 1 = 1"
  by (rule fl64_exact [where e = 0 and m = "2 ^ 52"]) (simp_all add: powr_minus)


lemma fl64_minus_1: "fl64 (- 1) = - 1"
  by (rule fl64_exact [where e = 0 and m = "- (2 ^ 52)"]) (simp_all add: powr_minus)


text \<open>The rounded value of a positive number stays in the closure of its binade.\<close>

lemma fl64_binade:
  assumes "0 < x"
  shows "2 powr of_int \<lfloor>log 2 x\<rfloor> \<le> fl64 x"
    and "fl64 x \<le> 2 powr (of_int \<lfloor>log 2 x\<rfloor> + 1)"
proof -
  define e where "e = \<lfloor>log 2 x\<rfloor>"
  define u :: real where "u = 2 powr (of_int e - 52)"
  define m where "m = round_half_even (x / u)"
  have "of_int e \<le> log 2 x"
    unfolding e_def by simp
  then have lo: "2 powr of_int e \<le> x"
    using assms by (simp add: le_log_iff)
  have "log 2 x < of_int e + 1"
    unfolding e_def by linarith
  then have hi: "x < 2 powr (of_int e + 1)"
    using assms by (simp add: log_less_iff)
  have u: "0 < u"
    by (simp add: u_def)
  have ue: "2 ^ 52 * u = 2 powr of_int e"
    by (simp add: u_def powr_diff)
  have ue': "2 ^ 53 * u = 2 powr (of_int e + 1)"
    by (simp add: u_def powr_diff powr_add)
  have "(2::real) ^ 52 \<le> x / u"
    using lo u ue by (simp add: field_simps)
  then have "(2::int) ^ 52 \<le> \<lfloor>x / u\<rfloor>"
    by (simp add: le_floor_iff)
  then have "(2::int) ^ 52 \<le> m"
    unfolding m_def using round_half_even_bounds [of "x / u"] by linarith
  then have m1: "(2::real) ^ 52 \<le> of_int m"
    by (metis of_int_le_iff of_int_numeral of_int_power)
  have "x / u < 2 ^ 53"
    using hi u ue' by (simp add: field_simps)
  then have "\<lfloor>x / u\<rfloor> < 2 ^ 53"
    by (simp add: floor_less_iff)
  then have "m \<le> 2 ^ 53"
    unfolding m_def using round_half_even_bounds [of "x / u"] by linarith
  then have m2: "of_int m \<le> (2::real) ^ 53"
    by (metis of_int_le_iff of_int_numeral of_int_power)
  have f: "fl64 x = of_int m * u"
    using assms by (simp add: fl64_def u_def e_def m_def Let_def)
  from m1 u have "2 ^ 52 * u \<le> of_int m * u"
    by simp
  with f ue show "2 powr of_int \<lfloor>log 2 x\<rfloor> \<le> fl64 x"
    unfolding e_def by simp
  from m2 u have "of_int m * u \<le> 2 ^ 53 * u"
    by simp
  with f ue' show "fl64 x \<le> 2 powr (of_int \<lfloor>log 2 x\<rfloor> + 1)"
    unfolding e_def by simp
qed


text \<open>Rounding keeps the order of positive numbers.\<close>

lemma fl64_mono:
  assumes "0 < x" and "x \<le> y"
  shows "fl64 x \<le> fl64 y"
proof -
  from assms have y: "0 < y" by simp
  from assms have "log 2 x \<le> log 2 y"
    by simp
  then have le: "\<lfloor>log 2 x\<rfloor> \<le> \<lfloor>log 2 y\<rfloor>"
    by (rule floor_mono)
  show ?thesis
  proof (cases "\<lfloor>log 2 x\<rfloor> = \<lfloor>log 2 y\<rfloor>")
    case True
    define u :: real where "u = 2 powr (of_int \<lfloor>log 2 y\<rfloor> - 52)"
    have u: "0 < u"
      by (simp add: u_def)
    from assms(2) u have "x / u \<le> y / u"
      by (simp add: divide_right_mono)
    then have "round_half_even (x / u) \<le> round_half_even (y / u)"
      by (rule round_half_even_mono)
    then have "of_int (round_half_even (x / u)) * u \<le> of_int (round_half_even (y / u)) * u"
      using u by simp
    moreover have "fl64 x = of_int (round_half_even (x / u)) * u"
      using assms(1) by (simp add: fl64_def u_def True Let_def)
    moreover have "fl64 y = of_int (round_half_even (y / u)) * u"
      using y by (simp add: fl64_def u_def Let_def)
    ultimately show ?thesis
      by simp
  next
    case False
    with le have "real_of_int \<lfloor>log 2 x\<rfloor> + 1 \<le> real_of_int \<lfloor>log 2 y\<rfloor>"
      by linarith
    then have "(2::real) powr (of_int \<lfloor>log 2 x\<rfloor> + 1) \<le> 2 powr of_int \<lfloor>log 2 y\<rfloor>"
      by (intro powr_mono) simp_all
    with fl64_binade(2) [OF assms(1)] fl64_binade(1) [OF y] show ?thesis
      by linarith
  qed
qed


lemma fl64_ge_1: "1 \<le> x \<Longrightarrow> 1 \<le> fl64 x"
  using fl64_mono [of 1 x] by (simp add: fl64_1)

lemma fl64_le_0:
  assumes "x \<le> 0"
  shows "fl64 x \<le> 0"
proof (cases "x = 0")
  case True
  then show ?thesis by (simp add: fl64_0)
next
  case False
  define u :: real where "u = 2 powr (of_int \<lfloor>log 2 \<bar>x\<bar>\<rfloor> - 52)"
  have u: "0 < u"
    by (simp add: u_def)
  have "x / u < 0"
    using False assms u by (simp add: field_simps)
  then have "\<lfloor>x / u\<rfloor> < 0"
    by (simp add: floor_less_iff)
  then have "round_half_even (x / u) \<le> 0"
    using round_half_even_bounds [of "x / u"] by linarith
  then have "of_int (round_half_even (x / u)) * u \<le> 0"
    using u by (simp add: mult_le_0_iff)
  moreover have "fl64 x = of_int (round_half_even (x / u)) * u"
    using False by (simp add: fl64_def u_def Let_def)
  ultimately show ?thesis
    by simp
qed



subsection \<open>The analytical value\<close>














subsection \<open>Samples, offsets and the library calls\<close>

lemma length_sample_at: "length (sample_at g p mu sigma n) = n"
  by (simp add: sample_at_def)


lemma map_upt_Suc_front: "map f [0..<Suc k] = f 0 # map (\<lambda>i. f (Suc i)) [0..<k]"
proof -
  have "[0..<Suc k] = 0 # map Suc [0..<k]"
    by (simp add: upt_conv_Cons map_Suc_upt del: upt_Suc)
  then show ?thesis by (simp add: comp_def del: upt_Suc)
qed

lemma trial_estimates_Suc:
  "trial_estimates g p mu sigma cl n (Suc t) =
     linear_quantile (sample_at g p mu sigma n) ((1 - cl) * 100) # trial_estimates g (p + n) mu sigma cl n t"
  unfolding trial_estimates_def map_upt_Suc_front by (simp add: add.assoc)

lemma draw_offset_0: "draw_offset ns t 0 = 0"
  by (simp add: draw_offset_def)

lemma draw_offset_Cons_Suc: "draw_offset (n # ns) t (Suc i) = t * nat n + draw_offset ns t i"
  by (simp add: draw_offset_def algebra_simps)

lemma np_random_normal_Inr:
  "(np_random_normal g mu sigma n = Inr (xs, g')) =
     (0 \<le> sigma \<and> 0 \<le> n \<and> n < 2 ^ 63 \<and>
      sample_at g (consumed g) mu sigma (nat n) = xs \<and> g\<lparr>consumed := consumed g + nat n\<rparr> = g')"
  by (simp add: np_random_normal_def not_less not_le)

lemma np_percentile_Inr:
  "(np_percentile xs q = Inr v) = (0 \<le> q \<and> q \<le> 100 \<and> xs \<noteq> [] \<and> linear_quantile xs q = v)"
  by (simp add: np_percentile_def not_less)

lemma simulation_loop_Inr:
  "simulation_loop mu sigma cl a ns g E0 R0 = Inr (E, R, g') \<Longrightarrow>
     E = E0 @ map (\<lambda>i. Fin (linear_quantile (sample_at g (consumed g + draw_offset ns 1 i) mu sigma (nat (ns ! i))) ((1 - cl) * 100))) [0..<length ns] \<and>
     R = R0 @ map (\<lambda>i. fabs (fsub (Fin (linear_quantile (sample_at g (consumed g + draw_offset ns 1 i) mu sigma (nat (ns ! i))) ((1 - cl) * 100))) a)) [0..<length ns] \<and>
     variates g' = variates g \<and> consumed g' = consumed g + draw_offset ns 1 (length ns)"
proof (induction ns arbitrary: g E0 R0)
  case Nil
  then show ?case by (simp add: draw_offset_def)
next
  case (Cons n ns)
  from Cons.prems obtain xs g1 where d: "np_random_normal g mu sigma n = Inr (xs, g1)"
    by (cases "np_random_normal g mu sigma n") auto
  from Cons.prems d obtain v where p: "np_percentile xs ((1 - cl) * 100) = Inr v"
    by (cases "np_percentile xs ((1 - cl) * 100)") auto
  from Cons.prems d p have
    r: "simulation_loop mu sigma cl a ns g1 (E0 @ [Fin v]) (R0 @ [fabs (fsub (Fin v) a)]) = Inr (E, R, g')"
    by simp
  from d have xs: "xs = sample_at g (consumed g) mu sigma (nat n)"
    and g1': "g1 = g\<lparr>consumed := consumed g + nat n\<rparr>"
    by (simp_all add: np_random_normal_Inr)
  from g1' have g1: "variates g1 = variates g" "consumed g1 = consumed g + nat n"
    by simp_all
  from p xs have v: "v = linear_quantile (sample_at g (consumed g) mu sigma (nat n)) ((1 - cl) * 100)"
    by (simp add: np_percentile_Inr)
  have sa: "\<And>p m. sample_at g1 p mu sigma m = sample_at g p mu sigma m"
    using g1 by (simp add: sample_at_def)
  note ih = Cons.IH [OF r]
  show ?case
    unfolding length_Cons map_upt_Suc_front
    using ih
    by (simp add: g1 sa v draw_offset_0 draw_offset_Cons_Suc add.assoc)
qed


lemma trials_loop_Inr:
  "trials_loop mu sigma cl a n k g V0 R0 = Inr (V, R, g') \<Longrightarrow>
     V = V0 @ map Fin (trial_estimates g (consumed g) mu sigma cl (nat n) k) \<and>
     R = R0 @ map (\<lambda>e. fabs (fsub (Fin e) a)) (trial_estimates g (consumed g) mu sigma cl (nat n) k) \<and>
     variates g' = variates g \<and> consumed g' = consumed g + k * nat n \<and>
     (0 < k \<longrightarrow> 0 \<le> cl \<and> cl \<le> 1)"
proof (induction k arbitrary: g V0 R0)
  case 0
  then show ?case by (simp add: trial_estimates_def)
next
  case (Suc k)
  from Suc.prems obtain xs g1 where d: "np_random_normal g mu sigma n = Inr (xs, g1)"
    by (cases "np_random_normal g mu sigma n") auto
  from Suc.prems d obtain v where p: "np_percentile xs ((1 - cl) * 100) = Inr v"
    by (cases "np_percentile xs ((1 - cl) * 100)") auto
  from Suc.prems d p have
    r: "trials_loop mu sigma cl a n k g1 (V0 @ [Fin v]) (R0 @ [fabs (fsub (Fin v) a)]) = Inr (V, R, g')"
    by simp
  from d have xs: "xs = sample_at g (consumed g) mu sigma (nat n)"
    and g1': "g1 = g\<lparr>consumed := consumed g + nat n\<rparr>"
    by (simp_all add: np_random_normal_Inr)
  from g1' have g1: "variates g1 = variates g" "consumed g1 = consumed g + nat n"
    by simp_all
  from p xs have v: "v = linear_quantile (sample_at g (consumed g) mu sigma (nat n)) ((1 - cl) * 100)"
    and rng: "0 \<le> cl \<and> cl \<le> 1"
    by (simp_all add: np_percentile_Inr)
  have te: "\<And>p m t. trial_estimates g1 p mu sigma cl m t = trial_estimates g p mu sigma cl m t"
    using g1 by (simp add: trial_estimates_def sample_at_def)
  note ih = Suc.IH [OF r]
  show ?case
    using ih rng
    by (simp add: trial_estimates_Suc g1 te v add.assoc)
qed

lemma averaging_loop_Inr:
  "averaging_loop mu sigma cl a T ns g E0 R0 = Inr (E, R, g') \<Longrightarrow>
     E = E0 @ map (\<lambda>i. np_mean (map Fin
            (trial_estimates g (consumed g + draw_offset ns (nat T) i) mu sigma cl (nat (ns ! i)) (nat T))))
          [0..<length ns] \<and>
     R = R0 @ map (\<lambda>i. np_mean (map (\<lambda>e. fabs (fsub (Fin e) a))
            (trial_estimates g (consumed g + draw_offset ns (nat T) i) mu sigma cl (nat (ns ! i)) (nat T))))
          [0..<length ns] \<and>
     variates g' = variates g \<and> consumed g' = consumed g + draw_offset ns (nat T) (length ns) \<and>
     (ns \<noteq> [] \<and> 0 < T \<longrightarrow> 0 \<le> cl \<and> cl \<le> 1)"
proof (induction ns arbitrary: g E0 R0)
  case Nil
  then show ?case by (simp add: draw_offset_def)
next
  case (Cons n ns)
  from Cons.prems obtain V W g1 where
    t: "trials_loop mu sigma cl a n (nat T) g [] [] = Inr (V, W, g1)"
    by (cases "trials_loop mu sigma cl a n (nat T) g [] []") auto
  from Cons.prems t have
    r: "averaging_loop mu sigma cl a T ns g1 (E0 @ [np_mean V]) (R0 @ [np_mean W]) = Inr (E, R, g')"
    by simp
  from trials_loop_Inr [OF t] have
    V: "V = map Fin (trial_estimates g (consumed g) mu sigma cl (nat n) (nat T))" and
    W: "W = map (\<lambda>e. fabs (fsub (Fin e) a)) (trial_estimates g (consumed g) mu sigma cl (nat n) (nat T))" and
    g1: "variates g1 = variates g" "consumed g1 = consumed g + nat T * nat n" and
    rng: "0 < nat T \<longrightarrow> 0 \<le> cl \<and> cl \<le> 1"
    by simp_all
  have te: "\<And>p m t. trial_estimates g1 p mu sigma cl m t = trial_estimates g p mu sigma cl m t"
    using g1 by (simp add: trial_estimates_def sample_at_def)
  note ih = Cons.IH [OF r]
  show ?case
    unfolding length_Cons map_upt_Suc_front
    using ih rng
    by (simp add: g1 te V W draw_offset_0 draw_offset_Cons_Suc add.assoc)
qed

lemma np_random_normal_ok:
  "0 \<le> sigma \<Longrightarrow> 0 \<le> n \<Longrightarrow> n < 2 ^ 63 \<Longrightarrow>
     np_random_normal g mu sigma n =
       Inr (sample_at g (consumed g) mu sigma (nat n), g\<lparr>consumed := consumed g + nat n\<rparr>)"
  by (simp add: np_random_normal_def)

lemma np_percentile_ok:
  "0 \<le> cl \<Longrightarrow> cl \<le> 1 \<Longrightarrow> xs \<noteq> [] \<Longrightarrow>
     np_percentile xs ((1 - cl) * 100) = Inr (linear_quantile xs ((1 - cl) * 100))"
  by (simp add: np_percentile_def)

lemma sample_at_nonempty: "0 < n \<Longrightarrow> sample_at g p mu sigma n \<noteq> []"
  by (simp add: sample_at_def)

lemma simulation_loop_total:
  "0 \<le> sigma \<Longrightarrow> 0 \<le> cl \<Longrightarrow> cl \<le> 1 \<Longrightarrow> list_all (\<lambda>n. 1 \<le> n \<and> n < 2 ^ 63) ns \<Longrightarrow>
     \<exists>E R g'. simulation_loop mu sigma cl a ns g E0 R0 = Inr (E, R, g')"
proof (induction ns arbitrary: g E0 R0)
  case Nil
  then show ?case by simp
next
  case (Cons n ns)
  from Cons.prems have n: "1 \<le> n" "n < 2 ^ 63" and rest: "list_all (\<lambda>n. 1 \<le> n \<and> n < 2 ^ 63) ns"
    by simp_all
  from n have ne: "sample_at g (consumed g) mu sigma (nat n) \<noteq> []"
    by (simp add: sample_at_nonempty)
  from Cons.prems n have d: "np_random_normal g mu sigma n =
      Inr (sample_at g (consumed g) mu sigma (nat n), g\<lparr>consumed := consumed g + nat n\<rparr>)"
    by (simp add: np_random_normal_ok)
  from Cons.prems(2,3) ne have p: "np_percentile (sample_at g (consumed g) mu sigma (nat n)) ((1 - cl) * 100) =
      Inr (linear_quantile (sample_at g (consumed g) mu sigma (nat n)) ((1 - cl) * 100))"
    by (rule np_percentile_ok)
  from Cons.IH [OF Cons.prems(1-3) rest] d p show ?case
    by simp
qed

lemma trials_loop_total:
  "0 \<le> sigma \<Longrightarrow> 0 \<le> cl \<Longrightarrow> cl \<le> 1 \<Longrightarrow> 1 \<le> n \<Longrightarrow> n < 2 ^ 63 \<Longrightarrow>
     \<exists>V R g'. trials_loop mu sigma cl a n k g V0 R0 = Inr (V, R, g')"
proof (induction k arbitrary: g V0 R0)
  case 0
  then show ?case by simp
next
  case (Suc k)
  from Suc.prems have ne: "sample_at g (consumed g) mu sigma (nat n) \<noteq> []"
    by (simp add: sample_at_nonempty)
  from Suc.prems have d: "np_random_normal g mu sigma n =
      Inr (sample_at g (consumed g) mu sigma (nat n), g\<lparr>consumed := consumed g + nat n\<rparr>)"
    by (simp add: np_random_normal_ok)
  from Suc.prems(2,3) ne have p: "np_percentile (sample_at g (consumed g) mu sigma (nat n)) ((1 - cl) * 100) =
      Inr (linear_quantile (sample_at g (consumed g) mu sigma (nat n)) ((1 - cl) * 100))"
    by (rule np_percentile_ok)
  from Suc.IH [OF Suc.prems] d p show ?case
    by simp
qed

lemma averaging_loop_total:
  "0 \<le> sigma \<Longrightarrow> 0 \<le> cl \<Longrightarrow> cl \<le> 1 \<Longrightarrow> list_all (\<lambda>n. 1 \<le> n \<and> n < 2 ^ 63) ns \<Longrightarrow>
     \<exists>E R g'. averaging_loop mu sigma cl a T ns g E0 R0 = Inr (E, R, g')"
proof (induction ns arbitrary: g E0 R0)
  case Nil
  then show ?case by simp
next
  case (Cons n ns)
  from Cons.prems have n: "1 \<le> n" "n < 2 ^ 63" and rest: "list_all (\<lambda>n. 1 \<le> n \<and> n < 2 ^ 63) ns"
    by simp_all
  from trials_loop_total [OF Cons.prems(1-3) n] obtain V W g1 where
    t: "trials_loop mu sigma cl a n (nat T) g [] [] = Inr (V, W, g1)"
    by blast
  from Cons.IH [OF Cons.prems(1-3) rest] show ?case
    by (simp add: t)
qed

subsection \<open>Running the script on concrete inputs\<close>

lemma sample_at_0: "sample_at g p mu sigma 0 = []"
  by (simp add: sample_at_def)

lemma sample_at_Suc:
  "sample_at g p mu sigma (Suc n) = (mu + sigma * variates g p) # sample_at g (Suc p) mu sigma n"
  unfolding sample_at_def map_upt_Suc_front by simp

lemmas run_simps = np_random_normal_def np_percentile_def linear_quantile_def lerp_def
  sample_at_0 sample_at_Suc parabola_rng_def Let_def eval_nat_numeral

lemma monte_carlo_var_simulation_Inr:
  assumes "monte_carlo_var_simulation g mu sigma cl ns = Inr (a, E, R, g')"
  shows "a = calculate_analytical_var mu sigma cl"
    and "simulation_loop mu sigma cl (calculate_analytical_var mu sigma cl) ns g [] [] = Inr (E, R, g')"
  using assms
  by (simp_all add: monte_carlo_var_simulation_def Let_def split: sum.splits)

lemma monte_carlo_var_simulation_trials_Inr:
  assumes "monte_carlo_var_simulation_trials g mu sigma cl ns T = Inr (a, E, R, g')"
  shows "a = calculate_analytical_var mu sigma cl"
    and "averaging_loop mu sigma cl (calculate_analytical_var mu sigma cl) T ns g [] [] = Inr (E, R, g')"
  using assms
  by (simp_all add: monte_carlo_var_simulation_trials_def Let_def split: sum.splits)

subsection \<open>Float arithmetic and outcomes of the runs\<close>

text \<open>An absolute value is at least zero or NaN, and so is a mean of such values.\<close>

lemma fabs_not_negative: "fge0 (fabs x) \<or> fabs x = NaN"
  by (cases x) simp_all

lemma fadd_not_negative:
  "fge0 x \<or> x = NaN \<Longrightarrow> fge0 y \<or> y = NaN \<Longrightarrow> fge0 (fadd x y) \<or> fadd x y = NaN"
  by (cases x; cases y) simp_all

lemma foldl_fadd_not_negative:
  "fge0 s \<or> s = NaN \<Longrightarrow> list_all (\<lambda>e. fge0 e \<or> e = NaN) xs \<Longrightarrow>
     fge0 (foldl fadd s xs) \<or> foldl fadd s xs = NaN"
  by (induction xs arbitrary: s) (simp_all add: fadd_not_negative)

lemma fdiv_count_not_negative: "fge0 x \<or> x = NaN \<Longrightarrow> fge0 (fdiv_count x k) \<or> fdiv_count x k = NaN"
  by (cases x) simp_all

lemma np_mean_not_negative:
  "list_all (\<lambda>e. fge0 e \<or> e = NaN) xs \<Longrightarrow> fge0 (np_mean xs) \<or> np_mean xs = NaN"
  by (simp add: np_mean_def fdiv_count_not_negative foldl_fadd_not_negative)

lemma simulation_loop_errors:
  "simulation_loop mu sigma cl a ns g E0 R0 = Inl e \<Longrightarrow> e = ValueError \<or> e = IndexError"
proof (induction ns arbitrary: g E0 R0)
  case Nil
  then show ?case by simp
next
  case (Cons n ns)
  show ?case
  proof (cases "np_random_normal g mu sigma n")
    case (Inl e')
    with Cons.prems have "e = e'" by simp
    with Inl show ?thesis by (simp add: np_random_normal_def split: if_splits)
  next
    case (Inr p)
    obtain xs g1 where p: "p = (xs, g1)" by (cases p)
    show ?thesis
    proof (cases "np_percentile xs ((1 - cl) * 100)")
      case (Inl e')
      with Cons.prems Inr p have "e = e'" by simp
      with Inl show ?thesis by (simp add: np_percentile_def split: if_splits)
    next
      case (Inr v)
      with Cons.prems \<open>np_random_normal g mu sigma n = Inr p\<close> p
      have "simulation_loop mu sigma cl a ns g1 (E0 @ [Fin v]) (R0 @ [fabs (fsub (Fin v) a)]) = Inl e"
        by simp
      then show ?thesis by (rule Cons.IH)
    qed
  qed
qed

lemma trials_loop_errors:
  "trials_loop mu sigma cl a n k g V0 R0 = Inl e \<Longrightarrow> e = ValueError \<or> e = IndexError"
proof (induction k arbitrary: g V0 R0)
  case 0
  then show ?case by simp
next
  case (Suc k)
  show ?case
  proof (cases "np_random_normal g mu sigma n")
    case (Inl e')
    with Suc.prems have "e = e'" by simp
    with Inl show ?thesis by (simp add: np_random_normal_def split: if_splits)
  next
    case (Inr p)
    obtain xs g1 where p: "p = (xs, g1)" by (cases p)
    show ?thesis
    proof (cases "np_percentile xs ((1 - cl) * 100)")
      case (Inl e')
      with Suc.prems Inr p have "e = e'" by simp
      with Inl show ?thesis by (simp add: np_percentile_def split: if_splits)
    next
      case (Inr v)
      with Suc.prems \<open>np_random_normal g mu sigma n = Inr p\<close> p
      have "trials_loop mu sigma cl a n k g1 (V0 @ [Fin v]) (R0 @ [fabs (fsub (Fin v) a)]) = Inl e"
        by simp
      then show ?thesis by (rule Suc.IH)
    qed
  qed
qed

lemma averaging_loop_errors:
  "averaging_loop mu sigma cl a T ns g E0 R0 = Inl e \<Longrightarrow> e = ValueError \<or> e = IndexError"
proof (induction ns arbitrary: g E0 R0)
  case Nil
  then show ?case by simp
next
  case (Cons n ns)
  show ?case
  proof (cases "trials_loop mu sigma cl a n (nat T) g [] []")
    case (Inl e')
    with Cons.prems have "e = e'" by simp
    with Inl show ?thesis by (simp add: trials_loop_errors)
  next
    case (Inr p)
    obtain V W g1 where p: "p = (V, W, g1)" by (cases p)
    from Cons.prems Inr p
    have "averaging_loop mu sigma cl a T ns g1 (E0 @ [np_mean V]) (R0 @ [np_mean W]) = Inl e"
      by simp
    then show ?thesis by (rule Cons.IH)
  qed
qed

lemma monte_carlo_var_simulation_Inl:
  "monte_carlo_var_simulation g mu sigma cl ns = Inl e \<Longrightarrow> e = ValueError \<or> e = IndexError"
  by (auto simp: monte_carlo_var_simulation_def Let_def split: sum.splits dest: simulation_loop_errors)

lemma monte_carlo_var_simulation_trials_Inl:
  "monte_carlo_var_simulation_trials g mu sigma cl ns T = Inl e \<Longrightarrow> e = ValueError \<or> e = IndexError"
  by (auto simp: monte_carlo_var_simulation_trials_def Let_def split: sum.splits dest: averaging_loop_errors)

lemma monte_carlo_var_simulation_returns:
  assumes "0 \<le> sigma" "0 \<le> cl" "cl \<le> 1" "list_all (\<lambda>n. 1 \<le> n \<and> n < 2 ^ 63) ns"
  shows "\<exists>E R g'. monte_carlo_var_simulation g mu sigma cl ns =
           Inr (calculate_analytical_var mu sigma cl, E, R, g')"
proof -
  from simulation_loop_total [OF assms] obtain E R g' where
    "simulation_loop mu sigma cl (calculate_analytical_var mu sigma cl) ns g [] [] = Inr (E, R, g')"
    by blast
  then show ?thesis by (simp add: monte_carlo_var_simulation_def)
qed

lemma monte_carlo_var_simulation_trials_returns:
  assumes "0 \<le> sigma" "0 \<le> cl" "cl \<le> 1" "list_all (\<lambda>n. 1 \<le> n \<and> n < 2 ^ 63) ns"
  shows "\<exists>E R g'. monte_carlo_var_simulation_trials g mu sigma cl ns T =
           Inr (calculate_analytical_var mu sigma cl, E, R, g')"
proof -
  from averaging_loop_total [OF assms] obtain E R g' where
    "averaging_loop mu sigma cl (calculate_analytical_var mu sigma cl) T ns g [] [] = Inr (E, R, g')"
    by blast
  then show ?thesis by (simp add: monte_carlo_var_simulation_trials_def)
qed

subsection \<open>One result per sample size\<close>

text \<open>
  Claim C8. Whenever \<open>monte_carlo_var_simulation\<close> returns, in the single-run variant and
  in the averaging variant, the sequence of estimates and the sequence of errors have
  the length of the sample-size sequence, and the entries at index \<open>i\<close> are the ones
  computed for the \<open>i\<close>-th sample size: the estimate taken from the sample of that size
  drawn after all earlier sizes were served, and its absolute error against the
  analytical value (averaged over the trials in the second variant).
\<close>

theorem results_aligned_with_sample_sizes:
  "(monte_carlo_var_simulation g mu sigma cl ns = Inr (a, E, R, g') \<longrightarrow>
      length E = length ns \<and> length R = length ns \<and>
      (\<forall>i<length ns.
         E ! i = Fin (linear_quantile
                   (sample_at g (consumed g + draw_offset ns 1 i) mu sigma (nat (ns ! i)))
                   ((1 - cl) * 100)) \<and>
         R ! i = fabs (fsub (E ! i) a))) \<and>
   (monte_carlo_var_simulation_trials g mu sigma cl ns T = Inr (a, E, R, g') \<longrightarrow>
      length E = length ns \<and> length R = length ns \<and>
      (\<forall>i<length ns.
         E ! i = np_mean (map Fin
                   (trial_estimates g (consumed g + draw_offset ns (nat T) i) mu sigma cl
                      (nat (ns ! i)) (nat T))) \<and>
         R ! i = np_mean (map (\<lambda>e. fabs (fsub (Fin e) a))
                   (trial_estimates g (consumed g + draw_offset ns (nat T) i) mu sigma cl
                      (nat (ns ! i)) (nat T)))))"
proof (intro conjI impI)
  assume run: "monte_carlo_var_simulation g mu sigma cl ns = Inr (a, E, R, g')"
  note a = monte_carlo_var_simulation_Inr(1) [OF run]
  note c = simulation_loop_Inr [OF monte_carlo_var_simulation_Inr(2) [OF run]]
  from c show "length E = length ns" by simp
  from c show "length R = length ns" by simp
  from c a show "\<forall>i<length ns.
         E ! i = Fin (linear_quantile
                   (sample_at g (consumed g + draw_offset ns 1 i) mu sigma (nat (ns ! i)))
                   ((1 - cl) * 100)) \<and>
         R ! i = fabs (fsub (E ! i) a)"
    by simp
next
  assume run: "monte_carlo_var_simulation_trials g mu sigma cl ns T = Inr (a, E, R, g')"
  note a = monte_carlo_var_simulation_trials_Inr(1) [OF run]
  note c = averaging_loop_Inr [OF monte_carlo_var_simulation_trials_Inr(2) [OF run]]
  from c show "length E = length ns" by simp
  from c show "length R = length ns" by simp
  from c a show "\<forall>i<length ns.
         E ! i = np_mean (map Fin
                   (trial_estimates g (consumed g + draw_offset ns (nat T) i) mu sigma cl
                      (nat (ns ! i)) (nat T))) \<and>
         R ! i = np_mean (map (\<lambda>e. fabs (fsub (Fin e) a))
                   (trial_estimates g (consumed g + draw_offset ns (nat T) i) mu sigma cl
                      (nat (ns ! i)) (nat T)))"
    by simp
qed

lemma simulation_run_example:
  "monte_carlo_var_simulation parabola_rng 0 1 (1/2) [2, 3] =
     Inr (calculate_analytical_var 0 1 (1/2), [Fin (- 3 / 2), Fin (- 3)],
          [fabs (fsub (Fin (- 3 / 2)) (calculate_analytical_var 0 1 (1/2))),
           fabs (fsub (Fin (- 3)) (calculate_analytical_var 0 1 (1/2)))],
          parabola_rng\<lparr>consumed := 5\<rparr>)"
  by (simp add: monte_carlo_var_simulation_def run_simps)

lemma simulation_trials_run_example:
  "monte_carlo_var_simulation_trials parabola_rng 0 1 (1/2) [2, 3] 2 =
     Inr (calculate_analytical_var 0 1 (1/2), [Fin (- 5 / 2), Fin (37 / 2)],
          [np_mean [fabs (fsub (Fin (- 3 / 2)) (calculate_analytical_var 0 1 (1/2))),
                    fabs (fsub (Fin (- 7 / 2)) (calculate_analytical_var 0 1 (1/2)))],
           np_mean [fabs (fsub (Fin 5) (calculate_analytical_var 0 1 (1/2))),
                    fabs (fsub (Fin 32) (calculate_analytical_var 0 1 (1/2)))]],
          parabola_rng\<lparr>consumed := 10\<rparr>)"
  by (simp add: monte_carlo_var_simulation_trials_def run_simps np_mean_def)

theorem results_aligned_with_sample_sizes_witness:
  "monte_carlo_var_simulation parabola_rng 0 1 (1/2) [2, 3] =
     Inr (calculate_analytical_var 0 1 (1/2), [Fin (- 3 / 2), Fin (- 3)],
          [fabs (fsub (Fin (- 3 / 2)) (calculate_analytical_var 0 1 (1/2))),
           fabs (fsub (Fin (- 3)) (calculate_analytical_var 0 1 (1/2)))],
          parabola_rng\<lparr>consumed := 5\<rparr>) \<and>
   length [Fin (- 3 / 2), Fin (- 3)] = length [2, 3 :: int] \<and>
   [Fin (- 3 / 2), Fin (- 3)] ! 1 =
     Fin (linear_quantile (sample_at parabola_rng (consumed parabola_rng + draw_offset [2, 3] 1 1) 0 1 (nat ([2, 3] ! 1)))
            ((1 - 1 / 2) * 100)) \<and>
   monte_carlo_var_simulation_trials parabola_rng 0 1 (1/2) [2, 3] 2 =
     Inr (calculate_analytical_var 0 1 (1/2), [Fin (- 5 / 2), Fin (37 / 2)],
          [np_mean [fabs (fsub (Fin (- 3 / 2)) (calculate_analytical_var 0 1 (1/2))),
                    fabs (fsub (Fin (- 7 / 2)) (calculate_analytical_var 0 1 (1/2)))],
           np_mean [fabs (fsub (Fin 5) (calculate_analytical_var 0 1 (1/2))),
                    fabs (fsub (Fin 32) (calculate_analytical_var 0 1 (1/2)))]],
          parabola_rng\<lparr>consumed := 10\<rparr>) \<and>
   length [Fin (- 5 / 2), Fin (37 / 2)] = length [2, 3 :: int] \<and>
   [Fin (- 5 / 2), Fin (37 / 2)] ! 1 =
     np_mean (map Fin (trial_estimates parabola_rng (consumed parabola_rng + draw_offset [2, 3] (nat 2) 1) 0 1 (1/2)
                         (nat ([2, 3] ! 1)) (nat 2)))"
proof -
  note r1 = simulation_run_example
  note r2 = simulation_trials_run_example
  note t = results_aligned_with_sample_sizes [of parabola_rng 0 1 "1/2" "[2, 3]"
      "calculate_analytical_var 0 1 (1/2)" _ _ _ 2]
  have i: "1 < length [2, 3 :: int]" by simp
  from t r1 i have a1: "[Fin (- 3 / 2), Fin (- 3)] ! 1 =
     Fin (linear_quantile (sample_at parabola_rng (consumed parabola_rng + draw_offset [2, 3] 1 1) 0 1 (nat ([2, 3] ! 1)))
            ((1 - 1 / 2) * 100))"
    by blast
  from t r2 i have a2: "[Fin (- 5 / 2), Fin (37 / 2)] ! 1 =
     np_mean (map Fin (trial_estimates parabola_rng (consumed parabola_rng + draw_offset [2, 3] (nat 2) 1) 0 1 (1/2)
                         (nat ([2, 3] ! 1)) (nat 2)))"
    by blast
  have l: "length [Fin (- 3 / 2), Fin (- 3)] = length [2, 3 :: int]"
    "length [Fin (- 5 / 2), Fin (37 / 2)] = length [2, 3 :: int]"
    by simp_all
  from r1 l(1) a1 r2 l(2) a2 show ?thesis
    by (intro conjI)
qed

subsection \<open>Parameters outside their range\<close>

lemma norm_ppf_outside: "q \<le> 0 \<or> 1 \<le> q \<or> scale \<le> 0 \<Longrightarrow> \<not> is_finite (norm_ppf q loc scale)"
  by (auto simp: norm_ppf_def)

text \<open>
  Claim C4, as amended. For every \<open>alpha\<close> outside the open interval \<open>(0, 1)\<close> (in
  particular \<open>alpha = 0\<close> and \<open>alpha = 1\<close>) and for every \<open>sigma \<le> 0\<close>, the calculator
  raises nothing and returns a value that is not finite: NaN whenever \<open>sigma \<le> 0\<close>, and
  for \<open>sigma > 0\<close> plus infinity at \<open>alpha = 0\<close>, minus infinity at \<open>alpha = 1\<close>, and
  NaN or an infinity at any other \<open>alpha\<close> outside the interval. (The calculator has no
  \<^verbatim>\<open>raise\<close> and \<^verbatim>\<open>norm.ppf\<close> raises nothing on numbers, which is why its result type
  here is a float and not a sum with the errors.)
\<close>

theorem calculate_analytical_var_returns_special_values:
  "(sigma \<le> 0 \<longrightarrow> calculate_analytical_var mu sigma alpha = NaN) \<and>
   (0 < sigma \<and> alpha = 0 \<longrightarrow> calculate_analytical_var mu sigma alpha = PInf) \<and>
   (0 < sigma \<and> alpha = 1 \<longrightarrow> calculate_analytical_var mu sigma alpha = NInf) \<and>
   (alpha \<le> 0 \<or> 1 \<le> alpha \<or> sigma \<le> 0 \<longrightarrow>
      \<not> is_finite (calculate_analytical_var mu sigma alpha))"
proof (intro conjI impI)
  show "calculate_analytical_var mu sigma alpha = NaN" if "sigma \<le> 0"
    using that by (simp add: calculate_analytical_var_def norm_ppf_def)
  show "calculate_analytical_var mu sigma alpha = PInf" if "0 < sigma \<and> alpha = 0"
    using that by (simp add: calculate_analytical_var_def norm_ppf_def fl64_1)
  show "calculate_analytical_var mu sigma alpha = NInf" if "0 < sigma \<and> alpha = 1"
    using that by (simp add: calculate_analytical_var_def norm_ppf_def fl64_0)
  assume "alpha \<le> 0 \<or> 1 \<le> alpha \<or> sigma \<le> 0"
  then have "fl64 (1 - alpha) \<le> 0 \<or> 1 \<le> fl64 (1 - alpha) \<or> sigma \<le> 0"
    using fl64_ge_1 [of "1 - alpha"] fl64_le_0 [of "1 - alpha"] by auto
  then show "\<not> is_finite (calculate_analytical_var mu sigma alpha)"
    unfolding calculate_analytical_var_def by (rule norm_ppf_outside)
qed

theorem calculate_analytical_var_returns_special_values_witness:
  "calculate_analytical_var (3 / 20) (1 / 5) 0 = PInf \<and>
   calculate_analytical_var (3 / 20) (1 / 5) 1 = NInf \<and>
   calculate_analytical_var (3 / 20) (- 1) (19 / 20) = NaN \<and>
   \<not> is_finite (calculate_analytical_var (3 / 20) (1 / 5) 2)"
  using calculate_analytical_var_returns_special_values [of "1 / 5" "3 / 20" 0]
    calculate_analytical_var_returns_special_values [of "1 / 5" "3 / 20" 1]
    calculate_analytical_var_returns_special_values [of "- 1" "3 / 20" "19 / 20"]
    calculate_analytical_var_returns_special_values [of "1 / 5" "3 / 20" 2]
  by simp

text \<open>
  The claim as stated asks for an InvalidParameter error at \<open>alpha = 0\<close>, \<open>alpha = 1\<close>
  and \<open>sigma \<le> 0\<close>. At these inputs the calculator returns an infinity or NaN, and the
  simulation built on it runs to its end and returns its three results.
\<close>

theorem invalid_parameter_counterexample:
  "calculate_analytical_var 0 1 0 = PInf \<and>
   calculate_analytical_var 0 1 1 = NInf \<and>
   calculate_analytical_var 0 0 (1 / 2) = NaN \<and>
   calculate_analytical_var 0 1 2 = NaN \<and>
   monte_carlo_var_simulation parabola_rng 0 1 0 [2] =
     Inr (PInf, [Fin 0], [PInf], parabola_rng\<lparr>consumed := 2\<rparr>)"
  by (simp add: calculate_analytical_var_def norm_ppf_def monte_carlo_var_simulation_def run_simps
      fsub_def fl64_0 fl64_1 fl64_minus_1)

subsection \<open>Sample sizes below two\<close>


lemma np_percentile_empty: "0 \<le> cl \<Longrightarrow> cl \<le> 1 \<Longrightarrow> np_percentile [] ((1 - cl) * 100) = Inl IndexError"
  by (simp add: np_percentile_def)

lemma simulation_loop_empty_sample:
  "0 \<le> sigma \<Longrightarrow> 0 \<le> cl \<Longrightarrow> cl \<le> 1 \<Longrightarrow> list_all (\<lambda>n. 0 \<le> n \<and> n < 2 ^ 63) ns \<Longrightarrow> 0 \<in> set ns \<Longrightarrow>
     simulation_loop mu sigma cl a ns g E0 R0 = Inl IndexError"
proof (induction ns arbitrary: g E0 R0)
  case Nil
  then show ?case by simp
next
  case (Cons n ns)
  from Cons.prems have n: "0 \<le> n" "n < 2 ^ 63" and rest: "list_all (\<lambda>n. 0 \<le> n \<and> n < 2 ^ 63) ns"
    by simp_all
  from Cons.prems n have d: "np_random_normal g mu sigma n =
      Inr (sample_at g (consumed g) mu sigma (nat n), g\<lparr>consumed := consumed g + nat n\<rparr>)"
    by (simp add: np_random_normal_ok)
  show ?case
  proof (cases "n = 0")
    case True
    from Cons.prems(2,3) have "np_percentile [] ((1 - cl) * 100) = Inl IndexError"
      by (rule np_percentile_empty)
    with d True show ?thesis
      by (simp add: sample_at_0)
  next
    case False
    with n have "sample_at g (consumed g) mu sigma (nat n) \<noteq> []"
      by (simp add: sample_at_nonempty)
    with Cons.prems(2,3) have p: "np_percentile (sample_at g (consumed g) mu sigma (nat n)) ((1 - cl) * 100) =
        Inr (linear_quantile (sample_at g (consumed g) mu sigma (nat n)) ((1 - cl) * 100))"
      by (rule np_percentile_ok)
    from False Cons.prems(5) have "0 \<in> set ns"
      by simp
    from Cons.IH [OF Cons.prems(1-3) rest this] d p show ?thesis
      by simp
  qed
qed

lemma trials_loop_empty_sample:
  assumes "0 \<le> sigma" "0 \<le> cl" "cl \<le> 1"
  shows "trials_loop mu sigma cl a 0 (Suc k) g V0 R0 = Inl IndexError"
proof -
  from assms(2,3) have "np_percentile [] ((1 - cl) * 100) = Inl IndexError"
    by (rule np_percentile_empty)
  with assms(1) show ?thesis
    by (simp add: np_random_normal_def sample_at_0)
qed

lemma averaging_loop_empty_sample:
  "0 \<le> sigma \<Longrightarrow> 0 \<le> cl \<Longrightarrow> cl \<le> 1 \<Longrightarrow> list_all (\<lambda>n. 0 \<le> n \<and> n < 2 ^ 63) ns \<Longrightarrow> 0 \<in> set ns \<Longrightarrow>
     0 < T \<Longrightarrow> averaging_loop mu sigma cl a T ns g E0 R0 = Inl IndexError"
proof (induction ns arbitrary: g E0 R0)
  case Nil
  then show ?case by simp
next
  case (Cons n ns)
  from Cons.prems have n: "0 \<le> n" "n < 2 ^ 63" and rest: "list_all (\<lambda>n. 0 \<le> n \<and> n < 2 ^ 63) ns"
    by simp_all
  from Cons.prems(6) obtain k where k: "nat T = Suc k"
    by (cases "nat T") simp_all
  show ?case
  proof (cases "n = 0")
    case True
    from trials_loop_empty_sample [OF Cons.prems(1-3)]
    have "trials_loop mu sigma cl a 0 (nat T) g [] [] = Inl IndexError"
      unfolding k .
    with True show ?thesis
      by simp
  next
    case False
    with n have n1: "1 \<le> n" by simp
    from trials_loop_total [OF Cons.prems(1-3) n1 n(2)] obtain V W g1 where
      t: "trials_loop mu sigma cl a n (nat T) g [] [] = Inr (V, W, g1)"
      by blast
    from False Cons.prems(5) have "0 \<in> set ns"
      by simp
    from Cons.IH [OF Cons.prems(1-3) rest this Cons.prems(6)] show ?thesis
      by (simp add: t)
  qed
qed

text \<open>
  Claim C5, as amended. The estimator has no check of the sample size and never fails
  with InvalidSampleSize. With \<open>sigma > 0\<close> and \<open>alpha\<close> in \<open>[0, 1]\<close>, a sequence whose
  sample sizes are all \<open>1\<close> or \<open>2\<close> raises no error, in the single-run variant and in
  the averaging variant with its default of 50 trials: \<open>N = 1\<close> is accepted like
  \<open>N = 2\<close>. A sequence of sizes \<open>0\<close>, \<open>1\<close> and \<open>2\<close> that contains the size \<open>0\<close> does
  fail, with the IndexError that \<^verbatim>\<open>np.percentile\<close> raises on the empty sample.
\<close>

theorem no_sample_size_check:
  assumes "0 < sigma" and "0 \<le> cl" and "cl \<le> 1"
  shows "(list_all (\<lambda>n. n = 1 \<or> n = 2) ns \<longrightarrow>
            (\<exists>E R g'. monte_carlo_var_simulation g mu sigma cl ns =
                Inr (calculate_analytical_var mu sigma cl, E, R, g')) \<and>
            (\<exists>E R g'. monte_carlo_var_simulation_trials g mu sigma cl ns 50 =
                Inr (calculate_analytical_var mu sigma cl, E, R, g'))) \<and>
         (list_all (\<lambda>n. n = 0 \<or> n = 1 \<or> n = 2) ns \<and> 0 \<in> set ns \<longrightarrow>
            monte_carlo_var_simulation g mu sigma cl ns = Inl IndexError \<and>
            monte_carlo_var_simulation_trials g mu sigma cl ns 50 = Inl IndexError) \<and>
         monte_carlo_var_simulation g mu sigma cl ns \<noteq> Inl InvalidSampleSize \<and>
         monte_carlo_var_simulation_trials g mu sigma cl ns T \<noteq> Inl InvalidSampleSize"
proof (intro conjI impI)
  show "monte_carlo_var_simulation g mu sigma cl ns \<noteq> Inl InvalidSampleSize"
    using monte_carlo_var_simulation_Inl [of g mu sigma cl ns InvalidSampleSize] by auto
  show "monte_carlo_var_simulation_trials g mu sigma cl ns T \<noteq> Inl InvalidSampleSize"
    using monte_carlo_var_simulation_trials_Inl [of g mu sigma cl ns T InvalidSampleSize] by auto
next
  from assms(1) have s: "0 \<le> sigma" by simp
  assume "list_all (\<lambda>n. n = 1 \<or> n = 2) ns"
  then have h: "list_all (\<lambda>n. 1 \<le> n \<and> n < 2 ^ 63) ns"
    by (auto simp: list_all_iff)
  show "\<exists>E R g'. monte_carlo_var_simulation g mu sigma cl ns =
          Inr (calculate_analytical_var mu sigma cl, E, R, g')"
    by (rule monte_carlo_var_simulation_returns [OF s assms(2,3) h])
  show "\<exists>E R g'. monte_carlo_var_simulation_trials g mu sigma cl ns 50 =
          Inr (calculate_analytical_var mu sigma cl, E, R, g')"
    by (rule monte_carlo_var_simulation_trials_returns [OF s assms(2,3) h])
next
  from assms(1) have s: "0 \<le> sigma" by simp
  assume "list_all (\<lambda>n. n = 0 \<or> n = 1 \<or> n = 2) ns \<and> 0 \<in> set ns"
  then have h: "list_all (\<lambda>n. 0 \<le> n \<and> n < 2 ^ 63) ns" and z: "0 \<in> set ns"
    by (auto simp: list_all_iff)
  show "monte_carlo_var_simulation g mu sigma cl ns = Inl IndexError"
    by (simp add: monte_carlo_var_simulation_def simulation_loop_empty_sample [OF s assms(2,3) h z])
  have "(0 :: int) < 50" by simp
  note averaging_loop_empty_sample [OF s assms(2,3) h z this]
  then show "monte_carlo_var_simulation_trials g mu sigma cl ns 50 = Inl IndexError"
    by (simp add: monte_carlo_var_simulation_trials_def)
qed

theorem no_sample_size_check_witness:
  "(0 :: real) < 1 \<and> (0 :: real) \<le> 1 / 2 \<and> (1 / 2 :: real) \<le> 1 \<and>
   (\<exists>E R g'. monte_carlo_var_simulation parabola_rng 0 1 (1 / 2) [1, 2] =
      Inr (calculate_analytical_var 0 1 (1 / 2), E, R, g')) \<and>
   (\<exists>E R g'. monte_carlo_var_simulation_trials parabola_rng 0 1 (1 / 2) [1, 2] 50 =
      Inr (calculate_analytical_var 0 1 (1 / 2), E, R, g')) \<and>
   monte_carlo_var_simulation parabola_rng 0 1 (1 / 2) [2, 0] = Inl IndexError \<and>
   monte_carlo_var_simulation_trials parabola_rng 0 1 (1 / 2) [2, 0] 50 = Inl IndexError"
proof -
  have h: "(0 :: real) < 1" "(0 :: real) \<le> 1 / 2" "(1 / 2 :: real) \<le> 1"
    by simp_all
  have a: "list_all (\<lambda>n. n = 1 \<or> n = 2) [1, 2 :: int]"
    by simp
  have b: "list_all (\<lambda>n. n = 0 \<or> n = 1 \<or> n = 2) [2, 0 :: int] \<and> 0 \<in> set [2, 0 :: int]"
    by simp
  from no_sample_size_check [OF h, of "[1, 2]" parabola_rng 0] a
  have r: "(\<exists>E R g'. monte_carlo_var_simulation parabola_rng 0 1 (1 / 2) [1, 2] =
      Inr (calculate_analytical_var 0 1 (1 / 2), E, R, g'))"
    "(\<exists>E R g'. monte_carlo_var_simulation_trials parabola_rng 0 1 (1 / 2) [1, 2] 50 =
      Inr (calculate_analytical_var 0 1 (1 / 2), E, R, g'))"
    by blast+
  from no_sample_size_check [OF h, of "[2, 0]" parabola_rng 0] b
  have f: "monte_carlo_var_simulation parabola_rng 0 1 (1 / 2) [2, 0] = Inl IndexError"
    "monte_carlo_var_simulation_trials parabola_rng 0 1 (1 / 2) [2, 0] 50 = Inl IndexError"
    by blast+
  from h r f show ?thesis
    by (intro conjI)
qed

text \<open>
  The claim as stated asks for an InvalidSampleSize error at \<open>N = 1\<close>. Both variants
  return there.
\<close>

theorem invalid_sample_size_counterexample:
  "monte_carlo_var_simulation parabola_rng 0 1 (1 / 2) [1] =
     Inr (calculate_analytical_var 0 1 (1 / 2), [Fin 0],
          [fabs (fsub (Fin 0) (calculate_analytical_var 0 1 (1 / 2)))],
          parabola_rng\<lparr>consumed := 1\<rparr>) \<and>
   monte_carlo_var_simulation_trials parabola_rng 0 1 (1 / 2) [1] 2 =
     Inr (calculate_analytical_var 0 1 (1 / 2), [Fin (- 3 / 2)],
          [np_mean [fabs (fsub (Fin 0) (calculate_analytical_var 0 1 (1 / 2))),
                    fabs (fsub (Fin (- 3)) (calculate_analytical_var 0 1 (1 / 2)))]],
          parabola_rng\<lparr>consumed := 2\<rparr>)"
  by (simp add: monte_carlo_var_simulation_def monte_carlo_var_simulation_trials_def run_simps np_mean_def)

subsection \<open>Sign of the errors\<close>

text \<open>
  Claim C10, as amended. Whenever \<open>monte_carlo_var_simulation\<close> returns, in the
  single-run variant and in the averaging variant, no element of the returned error
  sequence is negative: every element is at least zero (not necessarily above zero,
  plus infinity included) or NaN.
\<close>

theorem errors_nonnegative:
  "(monte_carlo_var_simulation g mu sigma cl ns = Inr (a, E, R, g') \<longrightarrow>
      list_all (\<lambda>e. fge0 e \<or> e = NaN) R) \<and>
   (monte_carlo_var_simulation_trials g mu sigma cl ns T = Inr (a, E, R, g') \<longrightarrow>
      list_all (\<lambda>e. fge0 e \<or> e = NaN) R)"
proof (intro conjI impI)
  assume run: "monte_carlo_var_simulation g mu sigma cl ns = Inr (a, E, R, g')"
  note loop = monte_carlo_var_simulation_Inr(2) [OF run]
  from simulation_loop_Inr [OF loop] show "list_all (\<lambda>e. fge0 e \<or> e = NaN) R"
    by (simp add: list_all_iff fabs_not_negative)
next
  assume run: "monte_carlo_var_simulation_trials g mu sigma cl ns T = Inr (a, E, R, g')"
  note loop = monte_carlo_var_simulation_trials_Inr(2) [OF run]
  have "fge0 (np_mean (map (\<lambda>e. fabs (fsub (Fin e) b)) es)) \<or>
        np_mean (map (\<lambda>e. fabs (fsub (Fin e) b)) es) = NaN" for b es
    by (rule np_mean_not_negative) (simp add: list_all_iff fabs_not_negative)
  with averaging_loop_Inr [OF loop] show "list_all (\<lambda>e. fge0 e \<or> e = NaN) R"
    by (simp add: list_all_iff)
qed

theorem errors_nonnegative_witness:
  "monte_carlo_var_simulation parabola_rng 0 1 (1 / 2) [2, 3] =
     Inr (calculate_analytical_var 0 1 (1 / 2), [Fin (- 3 / 2), Fin (- 3)],
          [fabs (fsub (Fin (- 3 / 2)) (calculate_analytical_var 0 1 (1 / 2))),
           fabs (fsub (Fin (- 3)) (calculate_analytical_var 0 1 (1 / 2)))],
          parabola_rng\<lparr>consumed := 5\<rparr>) \<and>
   list_all (\<lambda>e. fge0 e \<or> e = NaN)
     [fabs (fsub (Fin (- 3 / 2)) (calculate_analytical_var 0 1 (1 / 2))),
      fabs (fsub (Fin (- 3)) (calculate_analytical_var 0 1 (1 / 2)))] \<and>
   monte_carlo_var_simulation_trials parabola_rng 0 1 (1 / 2) [2, 3] 2 =
     Inr (calculate_analytical_var 0 1 (1 / 2), [Fin (- 5 / 2), Fin (37 / 2)],
          [np_mean [fabs (fsub (Fin (- 3 / 2)) (calculate_analytical_var 0 1 (1 / 2))),
                    fabs (fsub (Fin (- 7 / 2)) (calculate_analytical_var 0 1 (1 / 2)))],
           np_mean [fabs (fsub (Fin 5) (calculate_analytical_var 0 1 (1 / 2))),
                    fabs (fsub (Fin 32) (calculate_analytical_var 0 1 (1 / 2)))]],
          parabola_rng\<lparr>consumed := 10\<rparr>) \<and>
   list_all (\<lambda>e. fge0 e \<or> e = NaN)
     [np_mean [fabs (fsub (Fin (- 3 / 2)) (calculate_analytical_var 0 1 (1 / 2))),
               fabs (fsub (Fin (- 7 / 2)) (calculate_analytical_var 0 1 (1 / 2)))],
      np_mean [fabs (fsub (Fin 5) (calculate_analytical_var 0 1 (1 / 2))),
               fabs (fsub (Fin 32) (calculate_analytical_var 0 1 (1 / 2)))]]"
proof -
  note t = errors_nonnegative [of parabola_rng 0 1 "1 / 2" "[2, 3]" _ _ _ _ 2]
  from t simulation_run_example have n1: "list_all (\<lambda>e. fge0 e \<or> e = NaN)
     [fabs (fsub (Fin (- 3 / 2)) (calculate_analytical_var 0 1 (1 / 2))),
      fabs (fsub (Fin (- 3)) (calculate_analytical_var 0 1 (1 / 2)))]"
    by blast
  from t simulation_trials_run_example have n2: "list_all (\<lambda>e. fge0 e \<or> e = NaN)
     [np_mean [fabs (fsub (Fin (- 3 / 2)) (calculate_analytical_var 0 1 (1 / 2))),
               fabs (fsub (Fin (- 7 / 2)) (calculate_analytical_var 0 1 (1 / 2)))],
      np_mean [fabs (fsub (Fin 5) (calculate_analytical_var 0 1 (1 / 2))),
               fabs (fsub (Fin 32) (calculate_analytical_var 0 1 (1 / 2)))]]"
    by blast
  from simulation_run_example n1 simulation_trials_run_example n2 show ?thesis
    by (intro conjI)
qed

text \<open>
  The claim as stated says that every element is at least zero, for every input. With
  \<open>sigma = 0\<close> the analytical value is NaN and so is every error; with no trials the
  averages are means of empty lists, NaN as well. NaN is not at least zero.
\<close>

theorem errors_nonnegative_counterexample:
  "monte_carlo_var_simulation parabola_rng 0 0 (1 / 2) [2] =
     Inr (NaN, [Fin 0], [NaN], parabola_rng\<lparr>consumed := 2\<rparr>) \<and>
   monte_carlo_var_simulation_trials parabola_rng 0 1 (1 / 2) [2] 0 =
     Inr (calculate_analytical_var 0 1 (1 / 2), [NaN], [NaN], parabola_rng) \<and>
   \<not> list_all fge0 [NaN]"
  by (simp add: monte_carlo_var_simulation_def monte_carlo_var_simulation_trials_def run_simps
      np_mean_def fsub_def calculate_analytical_var_def norm_ppf_def)

subsection \<open>Averages over the trials\<close>













subsection \<open>Errors that are not positive\<close>

lemma np_log_nonpositive: "r \<le> 0 \<Longrightarrow> \<not> is_finite (np_log (Fin r))"
  by simp

text \<open>
  Claim C6, as amended. The fit has no check of its input and never fails with
  InvalidInput. When some error is zero or negative, \<^verbatim>\<open>np.log\<close> turns that error into
  minus infinity or NaN and the value is passed on to the regression; when moreover
  the sample sizes are positive integers of 64 bits, not all equal to one, and the two
  sequences have the same length, the fit returns NaN for the slope and for the
  intercept, raising nothing.
\<close>

theorem fitter_propagates_nonpositive_error:
  "log_log_fit Ns errs \<noteq> Inl InvalidInput \<and>
   ((\<exists>r. r \<le> 0 \<and> Fin r \<in> set errs) \<longrightarrow>
      (\<exists>v. v \<in> set (map np_log errs) \<and> (v = NInf \<or> v = NaN))) \<and>
   (list_all (\<lambda>n. 1 \<le> n \<and> n < 2 ^ 63) Ns \<and> (\<exists>n \<in> set Ns. 2 \<le> n) \<and>
    length errs = length Ns \<and> (\<exists>r. r \<le> 0 \<and> Fin r \<in> set errs) \<longrightarrow>
      log_log_fit Ns errs = Inr (NaN, NaN))"
proof (intro conjI impI)
  show "log_log_fit Ns errs \<noteq> Inl InvalidInput"
    by (simp add: log_log_fit_def np_polyfit1_def Let_def)
next
  assume "\<exists>r. r \<le> 0 \<and> Fin r \<in> set errs"
  then obtain r where r: "r \<le> 0" "Fin r \<in> set errs" by blast
  from r(2) have m: "np_log (Fin r) \<in> set (map np_log errs)"
    unfolding set_map by (rule imageI)
  from r(1) have "np_log (Fin r) = NInf \<or> np_log (Fin r) = NaN" by simp
  with m show "\<exists>v. v \<in> set (map np_log errs) \<and> (v = NInf \<or> v = NaN)" by blast
next
  assume h: "list_all (\<lambda>n. 1 \<le> n \<and> n < 2 ^ 63) Ns \<and> (\<exists>n \<in> set Ns. 2 \<le> n) \<and>
    length errs = length Ns \<and> (\<exists>r. r \<le> 0 \<and> Fin r \<in> set errs)"
  then obtain r where r: "r \<le> 0" "Fin r \<in> set errs" by blast
  from h obtain n where n: "n \<in> set Ns" "2 \<le> n" by blast
  from r(2) have m: "np_log (Fin r) \<in> set (map np_log errs)"
    unfolding set_map by (rule imageI)
  from n(1) have ne: "Ns \<noteq> []" by auto
  from h have "\<And>n. n \<in> set Ns \<Longrightarrow> 0 < real_of_int n"
    by (auto simp: list_all_iff)
  then have fx: "list_all is_finite (map (\<lambda>n. np_log (Fin (real_of_int n))) Ns)"
    by (simp add: list_all_iff)
  from n(2) have l: "np_log (Fin (real_of_int n)) \<noteq> Fin 0"
    by simp
  have nz: "\<not> list_all (\<lambda>a. a = Fin 0) (map (\<lambda>n. np_log (Fin (real_of_int n))) Ns)"
  proof
    assume "list_all (\<lambda>a. a = Fin 0) (map (\<lambda>n. np_log (Fin (real_of_int n))) Ns)"
    with n(1) have "np_log (Fin (real_of_int n)) = Fin 0"
      unfolding list_all_iff set_map by blast
    with l show False ..
  qed
  from m np_log_nonpositive [OF r(1)] have fy: "\<not> list_all is_finite (map np_log errs)"
    unfolding list_all_iff by blast
  from h ne fx nz fy show "log_log_fit Ns errs = Inr (NaN, NaN)"
    unfolding log_log_fit_def np_polyfit1_def Let_def by simp
qed

theorem fitter_propagates_nonpositive_error_witness:
  "log_log_fit [10, 100, 1000] [Fin 1, Fin (- 2), Fin 3] = Inr (NaN, NaN) \<and>
   log_log_fit [10, 100, 1000] [Fin 1, Fin (- 2), Fin 3] \<noteq> Inl InvalidInput \<and>
   (\<exists>v. v \<in> set (map np_log [Fin 1, Fin (- 2), Fin 3]) \<and> (v = NInf \<or> v = NaN))"
proof -
  have e: "\<exists>r. r \<le> 0 \<and> Fin r \<in> set [Fin 1, Fin (- 2), Fin 3]"
    by (rule exI [of _ "- 2"]) simp
  then have "list_all (\<lambda>n. 1 \<le> n \<and> n < 2 ^ 63) [10, 100, 1000 :: int] \<and>
    (\<exists>n \<in> set [10, 100, 1000 :: int]. 2 \<le> n) \<and>
    length [Fin 1, Fin (- 2), Fin 3] = length [10, 100, 1000 :: int] \<and>
    (\<exists>r. r \<le> 0 \<and> Fin r \<in> set [Fin 1, Fin (- 2), Fin 3])"
    by simp
  with e fitter_propagates_nonpositive_error [of "[10, 100, 1000]" "[Fin 1, Fin (- 2), Fin 3]"]
  show ?thesis by blast
qed

text \<open>
  The claim as stated asks for an InvalidInput error when an error value is zero. The
  logarithm of the zero is minus infinity, and the fit returns.
\<close>

theorem invalid_input_counterexample:
  "map np_log [Fin 0, Fin 1] = [NInf, Fin 0] \<and>
   log_log_fit [100, 1000] [Fin 0, Fin 1] = Inr (NaN, NaN)"
  by (simp add: log_log_fit_def np_polyfit1_def)

end
